theory Spec2Isabelle
  imports Complex_Main
begin

section \<open>Python values used by the program\<close>

text \<open>
  A Python \<open>str\<close> is a sequence of Unicode code points, modelled as a list of naturals.
  Literals of the source are written \<open>py ''...''\<close>.
\<close>

type_synonym pystr = "nat list"

abbreviation (input) py :: "string \<Rightarrow> pystr" where
  "py s \<equiv> map of_char s"

text \<open>
  The code points \<open>str.strip()\<close> removes (those for which \<open>str.isspace\<close> holds):
  TAB..CR, FS..US, space, NEL, NBSP, U+1680, U+2000..U+200A, U+2028, U+2029, U+202F,
  U+205F, U+3000.
\<close>

definition is_space :: "nat \<Rightarrow> bool" where
  "is_space c \<longleftrightarrow>
     (9 \<le> c \<and> c \<le> 13) \<or> (28 \<le> c \<and> c \<le> 32) \<or> c = 133 \<or> c = 160 \<or> c = 5760 \<or>
     (8192 \<le> c \<and> c \<le> 8202) \<or> c = 8232 \<or> c = 8233 \<or> c = 8239 \<or> c = 8287 \<or> c = 12288"

definition strip :: "pystr \<Rightarrow> pystr" where
  "strip s = rev (dropWhile is_space (rev (dropWhile is_space s)))"

text \<open>
  \<open>str.lower()\<close>, written out for \<open>A\<close>..\<open>Z\<close>. Python's \<open>lower\<close> differs from this
  on code points outside ASCII only. The source tests the lowered string against ASCII text
  alone (\<open>.pdf\<close>, \<open>application/pdf\<close>, \<open>application/x-pdf\<close>,
  \<open>application/octet-stream\<close>), and the code points outside ASCII whose lowering holds an
  ASCII letter (U+212A to \<open>k\<close>, U+0130 to \<open>i\<close> and U+0307) cannot take part in an
  occurrence of these texts, so the tests of the source read the same on this function.
\<close>

definition lower_cp :: "nat \<Rightarrow> nat" where
  "lower_cp c = (if 65 \<le> c \<and> c \<le> 90 then c + 32 else c)"

definition lower :: "pystr \<Rightarrow> pystr" where
  "lower s = map lower_cp s"

definition endswith :: "pystr \<Rightarrow> pystr \<Rightarrow> bool" where
  "endswith s t \<longleftrightarrow> length t \<le> length s \<and> drop (length s - length t) s = t"

text \<open>\<open>str_in t s\<close> is Python's \<open>t in s\<close> on two strings: \<open>t\<close> occurs in \<open>s\<close>.\<close>

fun str_in :: "pystr \<Rightarrow> pystr \<Rightarrow> bool" where
  "str_in t [] = (t = [])"
| "str_in t (c # s) = (take (length t) (c # s) = t \<or> str_in t s)"

text \<open>
  What \<open>response.json()\<close> returns. An object keeps its members as the body lists them;
  Python's dict keeps the last value of a repeated key. Numbers are integers here: the
  source applies to a number only operations that raise \<open>TypeError\<close> or
  \<open>AttributeError\<close> on every number.
\<close>

datatype json =
    JNull
  | JBool bool
  | JNum int
  | JStr pystr
  | JArr "json list"
  | JObj "(pystr \<times> json) list"

datatype py_error = TypeError | AttributeError | KeyError

text \<open>\<open>key in v\<close> for a string \<open>key\<close>.\<close>

fun py_contains :: "pystr \<Rightarrow> json \<Rightarrow> py_error + bool" where
  "py_contains k (JObj kvs) = Inr (k \<in> set (map fst kvs))"
| "py_contains k (JArr xs) = Inr (JStr k \<in> set xs)"
| "py_contains k (JStr s) = Inr (str_in k s)"
| "py_contains k _ = Inl TypeError"

text \<open>\<open>v[key]\<close> for a string \<open>key\<close>.\<close>

fun py_getitem :: "json \<Rightarrow> pystr \<Rightarrow> py_error + json" where
  "py_getitem (JObj kvs) k = (case map_of (rev kvs) k of None \<Rightarrow> Inl KeyError | Some v \<Rightarrow> Inr v)"
| "py_getitem _ k = Inl TypeError"

text \<open>The values \<open>for item in v\<close> runs through.\<close>

fun py_iter :: "json \<Rightarrow> py_error + json list" where
  "py_iter (JArr xs) = Inr xs"
| "py_iter (JObj kvs) = Inr (map JStr (rev (remdups (rev (map fst kvs)))))"
| "py_iter (JStr s) = Inr (map (\<lambda>c. JStr [c]) s)"
| "py_iter _ = Inl TypeError"

text \<open>\<open>v.lower()\<close>.\<close>

fun py_lower :: "json \<Rightarrow> py_error + pystr" where
  "py_lower (JStr s) = Inr (lower s)"
| "py_lower _ = Inl AttributeError"

section \<open>Search: \<open>GoogleCustomSearchPDFDownloader.search_pdfs\<close>\<close>

record downloader =
  api_key :: pystr
  cx_id :: pystr

text \<open>The parameters of one page request (\<open>params\<close> of the source).\<close>

record request =
  key :: pystr
  cx :: pystr
  q :: pystr
  start :: int
  fileType :: pystr
  alt :: pystr

text \<open>
  What \<open>requests.get\<close> and \<open>response.json()\<close> do for one page request: the call
  raises a \<open>RequestException\<close>, or there is a response with a status code whose body
  parses to a JSON value or does not parse (\<open>JSONDecodeError\<close>). The network is a function
  from requests to replies: the requests of one search differ in their start offset, so
  this covers every sequence of replies.
\<close>

datatype body = NotJson | Json json

datatype reply = RequestException | HttpResponse int body

text \<open>
  The effects of a search that a caller can observe: the page requests issued, the calls of
  \<open>save_links_to_file\<close> with their arguments, and the one-second sleeps. Writing the
  links file and printing are taken to succeed.
\<close>

record search_state =
  requests :: "request list"
  saved :: "(pystr list \<times> pystr) list"
  sleeps :: nat

definition save_links_to_file :: "pystr list \<Rightarrow> pystr \<Rightarrow> search_state \<Rightarrow> search_state" where
  "save_links_to_file urls query st = st\<lparr>saved := saved st @ [(urls, query)]\<rparr>"

text \<open>
  The test of line 113 on one item:
  \<open>'link' in item and item['link'].lower().endswith('.pdf')\<close>, with the link to append
  when it holds. An item of another shape than an object makes Python raise.
\<close>

definition pdf_link :: "json \<Rightarrow> py_error + pystr option" where
  "pdf_link item =
     (case py_contains (py ''link'') item of
        Inl e \<Rightarrow> Inl e
      | Inr False \<Rightarrow> Inr None
      | Inr True \<Rightarrow>
          (case py_getitem item (py ''link'') of
             Inl e \<Rightarrow> Inl e
           | Inr v \<Rightarrow>
               (case py_lower v of
                  Inl e \<Rightarrow> Inl e
                | Inr low \<Rightarrow>
                    if endswith low (py ''.pdf'')
                    then (case v of JStr s \<Rightarrow> Inr (Some s) | _ \<Rightarrow> Inl AttributeError)
                    else Inr None)))"

text \<open>
  The loop over the items of one page (lines 112 to 118): an exception leaves it, reaching
  the requested number of links leaves it with the list to return from, and otherwise it
  runs to the end of the items.
\<close>

datatype scan = Raised py_error | Reached "pystr list" | Exhausted "pystr list"

fun scan_items :: "int \<Rightarrow> json list \<Rightarrow> pystr list \<Rightarrow> scan" where
  "scan_items num_results [] pdf_urls = Exhausted pdf_urls"
| "scan_items num_results (item # rest) pdf_urls =
     (case pdf_link item of
        Inl e \<Rightarrow> Raised e
      | Inr None \<Rightarrow> scan_items num_results rest pdf_urls
      | Inr (Some link) \<Rightarrow>
          (if int (length (pdf_urls @ [link])) \<ge> num_results
           then Reached (pdf_urls @ [link])
           else scan_items num_results rest (pdf_urls @ [link])))"

text \<open>
  Lines 111 to 118 on the parsed body of one page: a body without \<open>items\<close> adds nothing.
\<close>

definition scan_page :: "int \<Rightarrow> json \<Rightarrow> pystr list \<Rightarrow> scan" where
  "scan_page num_results search_results pdf_urls =
     (case py_contains (py ''items'') search_results of
        Inl e \<Rightarrow> Raised e
      | Inr False \<Rightarrow> Exhausted pdf_urls
      | Inr True \<Rightarrow>
          (case py_getitem search_results (py ''items'') of
             Inl e \<Rightarrow> Raised e
           | Inr items \<Rightarrow>
               (case py_iter items of
                  Inl e \<Rightarrow> Raised e
                | Inr its \<Rightarrow> scan_items num_results its pdf_urls)))"

text \<open>Python's slice \<open>xs[:n]\<close>.\<close>

definition py_slice_to :: "'a list \<Rightarrow> int \<Rightarrow> 'a list" where
  "py_slice_to xs n = (if 0 \<le> n then take (nat n) xs else take (length xs - nat (- n)) xs)"

definition mk_request :: "downloader \<Rightarrow> pystr \<Rightarrow> nat \<Rightarrow> request" where
  "mk_request self query i =
     \<lparr>key = api_key self, cx = cx_id self, q = query @ py '' filetype:pdf'',
      start = int i * 10 + 1, fileType = py ''pdf'', alt = py ''json''\<rparr>"

text \<open>Lines 130 to 134, reached when the loop over the pages ends or breaks.\<close>

definition after_pages :: "pystr \<Rightarrow> pystr list \<Rightarrow> search_state \<Rightarrow> (py_error + pystr list) \<times> search_state" where
  "after_pages query pdf_urls st =
     (if pdf_urls \<noteq> [] then (Inr pdf_urls, save_links_to_file pdf_urls query st)
      else (Inr pdf_urls, st))"

text \<open>
  The loop over the pages (lines 81 to 128), over the page numbers still to visit. The
  result is \<open>Inr\<close> the list returned, or \<open>Inl\<close> an exception that no handler of the
  source catches and that leaves \<open>search_pdfs\<close>.
\<close>

fun search_pages ::
  "downloader \<Rightarrow> (request \<Rightarrow> reply) \<Rightarrow> pystr \<Rightarrow> int \<Rightarrow> nat list \<Rightarrow> pystr list \<Rightarrow> search_state
     \<Rightarrow> (py_error + pystr list) \<times> search_state" where
  "search_pages self net query num_results [] pdf_urls st = after_pages query pdf_urls st"
| "search_pages self net query num_results (i # rest) pdf_urls st =
     (let st1 = st\<lparr>requests := requests st @ [mk_request self query i]\<rparr> in
      case net (mk_request self query i) of
        RequestException \<Rightarrow> after_pages query pdf_urls st1
      | HttpResponse status_code b \<Rightarrow>
          if status_code = 400 then after_pages query pdf_urls st1
          else if status_code = 403 then after_pages query pdf_urls st1
          else if status_code \<noteq> 200 then after_pages query pdf_urls st1
          else
            (case b of
               NotJson \<Rightarrow> after_pages query pdf_urls st1
             | Json search_results \<Rightarrow>
                 (case scan_page num_results search_results pdf_urls of
                    Raised e \<Rightarrow> (Inl e, st1)
                  | Reached urls \<Rightarrow>
                      (Inr (py_slice_to urls num_results), save_links_to_file urls query st1)
                  | Exhausted urls \<Rightarrow>
                      search_pages self net query num_results rest urls
                        (st1\<lparr>sleeps := sleeps st1 + 1\<rparr>))))"

definition num_requests :: "int \<Rightarrow> int" where
  "num_requests num_results = min 10 ((num_results + 9) div 10)"

definition search_pdfs ::
  "downloader \<Rightarrow> (request \<Rightarrow> reply) \<Rightarrow> pystr \<Rightarrow> int \<Rightarrow> search_state
     \<Rightarrow> (py_error + pystr list) \<times> search_state" where
  "search_pdfs self net query num_results st =
     (if query = [] \<or> strip query = [] then (Inr [], st)
      else search_pages self net (strip query) num_results
             [0 ..< nat (num_requests num_results)] [] st)"

text \<open>
  Lines 241 to 244 of \<open>main\<close>: the count handed to \<open>search_pdfs\<close>. The argument is
  what \<open>int(...)\<close> makes of the text typed: an integer, or \<open>None\<close> where it raises
  \<open>ValueError\<close>.
\<close>

definition main_num_results :: "int option \<Rightarrow> int" where
  "main_num_results typed = (case typed of Some n \<Rightarrow> min n 100 | None \<Rightarrow> 10)"

section \<open>Download: \<open>GoogleCustomSearchPDFDownloader.download_pdfs\<close>\<close>

type_synonym bytes = "char list"

text \<open>
  The exceptions the handlers of lines 213 to 221 tell apart: \<open>Timeout\<close>,
  \<open>ConnectionError\<close> (one that is not also a \<open>Timeout\<close>), and every other
  \<open>Exception\<close>, of which the \<open>ValueError\<close> of \<open>int(content_length)\<close> is one.
\<close>

datatype exn = Timeout | ConnectionError | ValueError | OtherException pystr

text \<open>
  What the network does for one \<open>requests.get(url, stream=True, ...)\<close>: the call raises,
  or there is a response. Of a response the source reads the status code, the headers
  \<open>content-type\<close> and \<open>content-length\<close> (\<open>None\<close> when the header is absent) and the
  body, which \<open>iter_content\<close> yields chunk by chunk; \<open>broken\<close> is the exception
  \<open>iter_content\<close> raises after the last chunk it yields, if the stream does not end well.
  The network is a function of the position in the list and the URL, so that a URL listed
  twice may be answered differently each time.
\<close>

record response =
  status_code :: int
  content_type :: "pystr option"
  content_length :: "pystr option"
  chunks :: "bytes list"
  broken :: "exn option"

datatype fetch = Raises exn | Responds response

text \<open>The lines the source writes to the download log, without their wording.\<close>

datatype log_line =
    SessionHeader nat
  | Attempting nat pystr
  | ResponseStatusCode int
  | ResponseHeaders
  | SuccessfullyDownloaded pystr
  | DownloadedFileIsEmpty
  | ContentTypeNotPdf pystr pystr
  | HttpStatusCode pystr int
  | RequestTimedOut pystr
  | ConnectionFailed pystr
  | ErrorDownloading pystr exn

text \<open>
  The files on disk (path to content), the download log, and the one-second sleeps. Creating
  the directory, opening and writing the log, opening, writing, sizing and removing an
  output file and printing are taken to succeed.
\<close>

record download_state =
  files :: "pystr \<rightharpoonup> bytes"
  download_log :: "log_line list"
  pauses :: nat

text \<open>\<open>str(i)\<close> for a position \<open>i\<close>, and \<open>os.path.join\<close> (POSIX).\<close>

fun str_of_nat :: "nat \<Rightarrow> pystr" where
  "str_of_nat n = (if n < 10 then [48 + n] else str_of_nat (n div 10) @ [48 + n mod 10])"

declare str_of_nat.simps [simp del]

definition path_join :: "pystr \<Rightarrow> pystr \<Rightarrow> pystr" where
  "path_join a b =
     (if take 1 b = py ''/'' then b
      else if a = [] \<or> endswith a (py ''/'') then a @ b
      else a @ py ''/'' @ b)"

definition filename :: "pystr \<Rightarrow> nat \<Rightarrow> pystr" where
  "filename output_dir i = path_join output_dir (py ''document_'' @ str_of_nat i @ py ''.pdf'')"

text \<open>Line 182.\<close>

definition is_pdf :: "pystr \<Rightarrow> bool" where
  "is_pdf ctype \<longleftrightarrow>
     (\<exists>pdf_type \<in> set [py ''application/pdf'', py ''application/x-pdf'',
                        py ''application/octet-stream'']. str_in pdf_type ctype)"

text \<open>
  Line 185, \<open>int(content_length) if content_length else 0\<close>: \<open>None\<close> where \<open>int\<close>
  raises \<open>ValueError\<close>. Python's \<open>int\<close> on a string is the parameter \<open>py_int\<close>.
\<close>

definition total_size :: "(pystr \<Rightarrow> int option) \<Rightarrow> pystr option \<Rightarrow> int option" where
  "total_size py_int clen =
     (case clen of None \<Rightarrow> Some 0 | Some s \<Rightarrow> if s = [] then Some 0 else py_int s)"

text \<open>The three handlers of lines 213 to 221.\<close>

definition handler :: "pystr \<Rightarrow> exn \<Rightarrow> log_line" where
  "handler url e =
     (case e of
        Timeout \<Rightarrow> RequestTimedOut url
      | ConnectionError \<Rightarrow> ConnectionFailed url
      | _ \<Rightarrow> ErrorDownloading url e)"

definition write_log :: "log_line list \<Rightarrow> download_state \<Rightarrow> download_state" where
  "write_log ls st = st\<lparr>download_log := download_log st @ ls\<rparr>"

text \<open>The body of the loop, lines 157 to 224, for the URL at position \<open>i\<close>.\<close>

definition download_one ::
  "(pystr \<Rightarrow> int option) \<Rightarrow> (nat \<Rightarrow> pystr \<Rightarrow> fetch) \<Rightarrow> pystr \<Rightarrow> nat \<Rightarrow> pystr
     \<Rightarrow> download_state \<Rightarrow> download_state" where
  "download_one py_int net output_dir i url st =
     (let st1 = write_log [Attempting i url] st;
          st' =
            (case net i url of
               Raises e \<Rightarrow> write_log [handler url e] st1
             | Responds r \<Rightarrow>
                 (let st2 = write_log [ResponseStatusCode (status_code r), ResponseHeaders] st1 in
                  if status_code r = 200 then
                    (let ctype = lower (case content_type r of None \<Rightarrow> [] | Some t \<Rightarrow> t) in
                     if is_pdf ctype \<or> endswith (lower url) (py ''.pdf'') then
                       (case total_size py_int (content_length r) of
                          None \<Rightarrow> write_log [handler url ValueError] st2
                        | Some tqdm_total \<Rightarrow>
                            (let st3 = st2\<lparr>files :=
                                   (files st2)(filename output_dir i \<mapsto> concat (chunks r))\<rparr> in
                             case broken r of
                               Some e \<Rightarrow> write_log [handler url e] st3
                             | None \<Rightarrow>
                                 if length (concat (chunks r)) > 0
                                 then write_log [SuccessfullyDownloaded (filename output_dir i)] st3
                                 else write_log [DownloadedFileIsEmpty]
                                        (st3\<lparr>files := (files st3)(filename output_dir i := None)\<rparr>)))
                     else write_log [ContentTypeNotPdf url ctype] st2)
                  else write_log [HttpStatusCode url (status_code r)] st2))
      in st'\<lparr>pauses := pauses st' + 1\<rparr>)"

text \<open>The loop of line 156 over \<open>enumerate(urls, 1)\<close>.\<close>

fun download_loop ::
  "(pystr \<Rightarrow> int option) \<Rightarrow> (nat \<Rightarrow> pystr \<Rightarrow> fetch) \<Rightarrow> pystr \<Rightarrow> (nat \<times> pystr) list
     \<Rightarrow> download_state \<Rightarrow> download_state" where
  "download_loop py_int net output_dir [] st = st"
| "download_loop py_int net output_dir ((i, url) # rest) st =
     download_loop py_int net output_dir rest (download_one py_int net output_dir i url st)"

text \<open>
  \<open>download_pdfs\<close>, started on a disk that holds the files \<open>disk\<close>. The source returns
  nothing; what a caller can observe afterwards is the disk and the log.
\<close>

definition download_pdfs ::
  "(pystr \<Rightarrow> int option) \<Rightarrow> (nat \<Rightarrow> pystr \<Rightarrow> fetch) \<Rightarrow> pystr list \<Rightarrow> pystr
     \<Rightarrow> (pystr \<rightharpoonup> bytes) \<Rightarrow> download_state" where
  "download_pdfs py_int net urls output_dir disk =
     download_loop py_int net output_dir (enumerate 1 urls)
       \<lparr>files = disk, download_log = [SessionHeader (length urls)], pauses = 0\<rparr>"

section \<open>Notions used to state the properties\<close>

subsection \<open>Search\<close>

text \<open>The test of line 113 on a link.\<close>

definition pdf_test :: "pystr \<Rightarrow> bool" where
  "pdf_test u \<longleftrightarrow> endswith (lower u) (py ''.pdf'')"

text \<open>
  \<open>u\<close> ends in \<open>ext\<close> when letter case is ignored: the last \<open>length ext\<close> code points of
  \<open>u\<close> and \<open>ext\<close> are the same after lowering both.
\<close>

definition ends_with_ci :: "pystr \<Rightarrow> pystr \<Rightarrow> bool" where
  "ends_with_ci u ext \<longleftrightarrow>
     length ext \<le> length u \<and> lower (drop (length u - length ext) u) = lower ext"

text \<open>The page requests issued between two states of a search.\<close>

definition issued :: "search_state \<Rightarrow> search_state \<Rightarrow> request list" where
  "issued st st' = drop (length (requests st)) (requests st')"

text \<open>
  The replies on which the source leaves the loop over the pages by \<open>break\<close>: a transport
  failure, a status other than 200 (400 and 403 among them), a body that is not JSON.
\<close>

definition page_fails :: "reply \<Rightarrow> bool" where
  "page_fails r =
     (case r of
        RequestException \<Rightarrow> True
      | HttpResponse code b \<Rightarrow> code \<noteq> 200 \<or> b = NotJson)"

subsection \<open>Download\<close>

text \<open>
  The outcome of one download attempt as the specification names it, read off the line that
  ends the attempt's part of the log.
\<close>

datatype failure = TimeoutFailure | ConnectionFailure | EmptyDownload | OtherFailure exn

datatype DownloadOutcome =
    Success pystr
  | SkippedWrongType pystr
  | SkippedHTTPError int
  | Failed failure

fun outcome_of :: "log_line \<Rightarrow> DownloadOutcome option" where
  "outcome_of (SuccessfullyDownloaded path) = Some (Success path)"
| "outcome_of DownloadedFileIsEmpty = Some (Failed EmptyDownload)"
| "outcome_of (ContentTypeNotPdf url ctype) = Some (SkippedWrongType ctype)"
| "outcome_of (HttpStatusCode url code) = Some (SkippedHTTPError code)"
| "outcome_of (RequestTimedOut url) = Some (Failed TimeoutFailure)"
| "outcome_of (ConnectionFailed url) = Some (Failed ConnectionFailure)"
| "outcome_of (ErrorDownloading url e) = Some (Failed (OtherFailure e))"
| "outcome_of _ = None"

definition outcomes :: "download_state \<Rightarrow> DownloadOutcome list" where
  "outcomes st = List.map_filter outcome_of (download_log st)"

fun attempt_of :: "log_line \<Rightarrow> (nat \<times> pystr) option" where
  "attempt_of (Attempting i url) = Some (i, url)"
| "attempt_of _ = None"

definition attempts :: "download_state \<Rightarrow> (nat \<times> pystr) list" where
  "attempts st = List.map_filter attempt_of (download_log st)"




subsection \<open>Concrete runs\<close>

definition ex_self :: downloader where
  "ex_self = \<lparr>api_key = py ''key'', cx_id = py ''engine''\<rparr>"

definition idle :: search_state where
  "idle = \<lparr>requests = [], saved = [], sleeps = 0\<rparr>"

definition ex_page :: "pystr list \<Rightarrow> reply" where
  "ex_page links =
     HttpResponse 200 (Json (JObj [(py ''items'', JArr (map (\<lambda>u. JObj [(py ''link'', JStr u)]) links))]))"

text \<open>
  A search service with two pages of results, the first with a link that is no PDF, and
  nothing but refusals after them.
\<close>

definition ex_net :: "request \<Rightarrow> reply" where
  "ex_net r =
     (if start r = 1 then ex_page [py ''http://a.org/x.PDF'', py ''http://a.org/y.html'']
      else if start r = 11 then ex_page [py ''http://b.org/z.pdf'']
      else HttpResponse 403 NotJson)"

definition ex_refusing :: "request \<Rightarrow> reply" where
  "ex_refusing r = HttpResponse 403 NotJson"


definition ex_int :: "pystr \<Rightarrow> int option" where
  "ex_int s = (if s = py ''4'' then Some 4 else None)"

definition ex_pdf_response :: "bytes list \<Rightarrow> exn option \<Rightarrow> response" where
  "ex_pdf_response cs e =
     \<lparr>status_code = 200, content_type = Some (py ''Application/PDF''),
      content_length = Some (py ''4''), chunks = cs, broken = e\<rparr>"



definition ex_dir :: pystr where
  "ex_dir = py ''downloaded_pdfs''"



text \<open>A download whose connection is lost after the first chunk.\<close>

definition ex_cut :: "nat \<Rightarrow> pystr \<Rightarrow> fetch" where
  "ex_cut i url = Responds (ex_pdf_response [''%PDF''] (Some ConnectionError))"

section \<open>Properties of the search\<close>

lemma pdf_link_Some:
  assumes "pdf_link item = Inr (Some l)"
  shows "pdf_test l"
  using assms
  by (auto simp: pdf_link_def pdf_test_def split: sum.splits bool.splits if_splits json.splits
      elim!: py_lower.elims)

lemma scan_items_Reached:
  "int (length acc) < n \<Longrightarrow> scan_items n its acc = Reached xs \<Longrightarrow> int (length xs) = n"
proof (induction its arbitrary: acc)
  case Nil
  then show ?case by simp
next
  case (Cons item rest)
  show ?case
  proof (cases "pdf_link item")
    case (Inl e)
    with Cons.prems show ?thesis by simp
  next
    case (Inr r)
    show ?thesis
    proof (cases r)
      case None
      with Inr Cons show ?thesis by simp
    next
      case (Some l)
      show ?thesis
      proof (cases "int (length (acc @ [l])) \<ge> n")
        case True
        with Inr Some Cons.prems show ?thesis by auto
      next
        case False
        then have "int (length (acc @ [l])) < n" by simp
        moreover from False Inr Some Cons.prems(2)
        have "scan_items n rest (acc @ [l]) = Reached xs" by simp
        ultimately show ?thesis by (rule Cons.IH)
      qed
    qed
  qed
qed

lemma scan_items_Exhausted:
  "int (length acc) < n \<Longrightarrow> scan_items n its acc = Exhausted xs \<Longrightarrow> int (length xs) < n"
proof (induction its arbitrary: acc)
  case Nil
  then show ?case by simp
next
  case (Cons item rest)
  show ?case
  proof (cases "pdf_link item")
    case (Inl e)
    with Cons.prems show ?thesis by simp
  next
    case (Inr r)
    show ?thesis
    proof (cases r)
      case None
      with Inr Cons show ?thesis by simp
    next
      case (Some l)
      show ?thesis
      proof (cases "int (length (acc @ [l])) \<ge> n")
        case True
        with Inr Some Cons.prems show ?thesis by auto
      next
        case False
        then have "int (length (acc @ [l])) < n" by simp
        moreover from False Inr Some Cons.prems(2)
        have "scan_items n rest (acc @ [l]) = Exhausted xs" by simp
        ultimately show ?thesis by (rule Cons.IH)
      qed
    qed
  qed
qed

lemma scan_items_pdf:
  "scan_items n its acc = Reached xs \<or> scan_items n its acc = Exhausted xs \<Longrightarrow>
   \<forall>u\<in>set acc. pdf_test u \<Longrightarrow>
   \<forall>u\<in>set xs. pdf_test u"
proof (induction its arbitrary: acc)
  case Nil
  then show ?case by simp
next
  case (Cons item rest)
  show ?case
  proof (cases "pdf_link item")
    case (Inl e)
    with Cons.prems show ?thesis by simp
  next
    case (Inr r)
    show ?thesis
    proof (cases r)
      case None
      with Inr Cons show ?thesis by simp
    next
      case (Some l)
      have l: "pdf_test l"
        using Inr Some pdf_link_Some by simp
      have acc': "\<forall>u\<in>set (acc @ [l]). pdf_test u"
        using l Cons.prems(2) by simp
      show ?thesis
      proof (cases "int (length (acc @ [l])) \<ge> n")
        case True
        with Inr Some Cons.prems(1) have "xs = acc @ [l]" by simp
        with acc' show ?thesis by blast
      next
        case False
        with Inr Some Cons.prems(1)
        have "scan_items n rest (acc @ [l]) = Reached xs \<or> scan_items n rest (acc @ [l]) = Exhausted xs"
          by simp
        from Cons.IH[OF this acc'] show ?thesis .
      qed
    qed
  qed
qed

lemma scan_page_Reached:
  "int (length acc) < n \<Longrightarrow> scan_page n j acc = Reached xs \<Longrightarrow> int (length xs) = n"
  by (auto simp: scan_page_def split: sum.splits bool.splits dest: scan_items_Reached)

lemma scan_page_Exhausted:
  "int (length acc) < n \<Longrightarrow> scan_page n j acc = Exhausted xs \<Longrightarrow> int (length xs) < n"
  by (auto simp: scan_page_def split: sum.splits bool.splits dest: scan_items_Exhausted)

lemma scan_page_pdf:
  "scan_page n j acc = Reached xs \<or> scan_page n j acc = Exhausted xs \<Longrightarrow>
   \<forall>u\<in>set acc. pdf_test u \<Longrightarrow>
   \<forall>u\<in>set xs. pdf_test u"
  unfolding scan_page_def
  by (auto split: sum.splits bool.splits dest: scan_items_pdf[rotated])

lemma page_succeeds:
  assumes "\<not> page_fails r"
  obtains j where "r = HttpResponse 200 (Json j)"
proof (cases r)
  case RequestException
  with assms show ?thesis by (simp add: page_fails_def)
next
  case (HttpResponse code b)
  with assms have "code = 200" and "b \<noteq> NotJson" by (simp_all add: page_fails_def)
  with HttpResponse that show ?thesis by (cases b) auto
qed

lemma search_pages_Cons:
  "search_pages self net qy n (i # rest) acc st =
     (case net (mk_request self qy i) of
        RequestException \<Rightarrow> after_pages qy acc (st\<lparr>requests := requests st @ [mk_request self qy i]\<rparr>)
      | HttpResponse code b \<Rightarrow>
          if code \<noteq> 200 then after_pages qy acc (st\<lparr>requests := requests st @ [mk_request self qy i]\<rparr>)
          else
            (case b of
               NotJson \<Rightarrow> after_pages qy acc (st\<lparr>requests := requests st @ [mk_request self qy i]\<rparr>)
             | Json j \<Rightarrow>
                 (case scan_page n j acc of
                    Raised e \<Rightarrow> (Inl e, st\<lparr>requests := requests st @ [mk_request self qy i]\<rparr>)
                  | Reached xs \<Rightarrow>
                      (Inr (py_slice_to xs n),
                       save_links_to_file xs qy (st\<lparr>requests := requests st @ [mk_request self qy i]\<rparr>))
                  | Exhausted xs \<Rightarrow>
                      search_pages self net qy n rest xs
                        (st\<lparr>requests := requests st @ [mk_request self qy i],
                            sleeps := Suc (sleeps st)\<rparr>))))"
  by (simp add: Let_def split: reply.splits body.splits scan.splits)

lemma after_pages_result:
  "after_pages qy acc st = (r, st') \<Longrightarrow>
   r = Inr acc \<and> requests st' = requests st \<and>
   saved st' = saved st @ (if acc = [] then [] else [(acc, qy)])"
  by (auto simp: after_pages_def save_links_to_file_def split: if_splits)

lemma search_pages_fails:
  assumes "page_fails (net (mk_request self qy i))"
  shows "search_pages self net qy n (i # rest) acc st =
           after_pages qy acc (st\<lparr>requests := requests st @ [mk_request self qy i]\<rparr>)"
  using assms unfolding search_pages_Cons page_fails_def
  by (auto split: reply.splits body.splits)

lemma search_pages_returns:
  assumes "int (length acc) < n" and "\<forall>u\<in>set acc. pdf_test u"
    and "search_pages self net qy n pages acc st = (Inr urls, st')"
  shows "int (length urls) \<le> n \<and> (\<forall>u\<in>set urls. pdf_test u) \<and>
         saved st' = saved st @ (if urls = [] then [] else [(urls, qy)])"
  using assms
proof (induction pages arbitrary: acc st)
  case Nil
  then show ?case
    by (auto dest!: after_pages_result)
next
  case (Cons i rest)
  let ?st1 = "st\<lparr>requests := requests st @ [mk_request self qy i]\<rparr>"
  show ?case
  proof (cases "page_fails (net (mk_request self qy i))")
    case True
    from Cons.prems(3) search_pages_fails[of net self qy i n rest acc st, OF True]
    have "after_pages qy acc ?st1 = (Inr urls, st')" by simp
    from after_pages_result[OF this] Cons.prems(1,2) show ?thesis by auto
  next
    case False
    then obtain j where j: "net (mk_request self qy i) = HttpResponse 200 (Json j)"
      by (rule page_succeeds)
    show ?thesis
    proof (cases "scan_page n j acc")
      case (Raised e)
      with j Cons.prems(3) show ?thesis by (simp add: search_pages_Cons)
    next
      case (Reached xs)
      from scan_page_Reached[OF Cons.prems(1) Reached] have len: "int (length xs) = n" .
      then have sl: "py_slice_to xs n = xs" by (auto simp: py_slice_to_def)
      from Cons.prems(1) len have ne: "xs \<noteq> []" by auto
      from scan_page_pdf[of n j acc xs] Reached Cons.prems(2) have "\<forall>u\<in>set xs. pdf_test u" by blast
      moreover from j Reached Cons.prems(3) sl
      have "urls = xs \<and> st' = save_links_to_file xs qy ?st1"
        by (auto simp add: search_pages_Cons)
      ultimately show ?thesis using len ne by (simp add: save_links_to_file_def)
    next
      case (Exhausted xs)
      from scan_page_Exhausted[OF Cons.prems(1) Exhausted] have len: "int (length xs) < n" .
      from scan_page_pdf[of n j acc xs] Exhausted Cons.prems(2) have pdf: "\<forall>u\<in>set xs. pdf_test u" by blast
      from j Exhausted Cons.prems(3)
      have "search_pages self net qy n rest xs (?st1\<lparr>sleeps := Suc (sleeps st)\<rparr>) = (Inr urls, st')"
        by (simp add: search_pages_Cons)
      from Cons.IH[OF len pdf this] show ?thesis by simp
    qed
  qed
qed

lemma search_pages_requests:
  "\<exists>k. k \<le> length pages \<and> (pages \<noteq> [] \<longrightarrow> 1 \<le> k) \<and>
       requests (snd (search_pages self net qy n pages acc st)) =
         requests st @ map (mk_request self qy) (take k pages)"
proof (induction pages arbitrary: acc st)
  case Nil
  then show ?case by (simp add: after_pages_def save_links_to_file_def)
next
  case (Cons i rest)
  let ?st1 = "st\<lparr>requests := requests st @ [mk_request self qy i]\<rparr>"
  have one: "requests (snd r) = requests ?st1 \<Longrightarrow>
             \<exists>k. k \<le> length (i # rest) \<and> (i # rest \<noteq> [] \<longrightarrow> 1 \<le> k) \<and>
               requests (snd r) = requests st @ map (mk_request self qy) (take k (i # rest))" for r
    by (rule exI[of _ 1]) simp
  show ?case
  proof (cases "page_fails (net (mk_request self qy i))")
    case True
    show ?thesis
      unfolding search_pages_fails[of net self qy i n rest acc st, OF True]
      by (rule one) (simp add: after_pages_def save_links_to_file_def)
  next
    case False
    then obtain j where j: "net (mk_request self qy i) = HttpResponse 200 (Json j)"
      by (rule page_succeeds)
    show ?thesis
    proof (cases "scan_page n j acc")
      case (Raised e)
      show ?thesis by (rule one) (simp add: search_pages_Cons j Raised)
    next
      case (Reached xs)
      show ?thesis by (rule one) (simp add: search_pages_Cons j Reached save_links_to_file_def)
    next
      case (Exhausted xs)
      from Cons.IH[of xs "?st1\<lparr>sleeps := Suc (sleeps st)\<rparr>"]
      obtain k where k: "k \<le> length rest"
        "requests (snd (search_pages self net qy n rest xs (?st1\<lparr>sleeps := Suc (sleeps st)\<rparr>))) =
           requests (?st1\<lparr>sleeps := Suc (sleeps st)\<rparr>) @ map (mk_request self qy) (take k rest)"
        by blast
      show ?thesis
        by (rule exI[of _ "Suc k"]) (simp add: search_pages_Cons j Exhausted k)
    qed
  qed
qed

lemma pdf_test_iff: "pdf_test u \<longleftrightarrow> ends_with_ci u (py ''.pdf'')"
  by (auto simp add: pdf_test_def ends_with_ci_def endswith_def lower_def drop_map lower_cp_def)

lemma strip_blank: "\<forall>c\<in>set s. is_space c \<Longrightarrow> strip s = []"
proof -
  assume "\<forall>c\<in>set s. is_space c"
  then have d: "dropWhile is_space s = []" using dropWhile_eq_Nil_conv by blast
  show ?thesis unfolding strip_def d by simp
qed

lemma num_requests_ceiling: "num_requests n = min 10 \<lceil>real_of_int n / 10\<rceil>"
proof -
  have "\<lceil>real_of_int n / real_of_int 10\<rceil> = - (- n div 10)" by (rule ceiling_divide_eq_div)
  also have "\<dots> = (n + 9) div 10" by linarith
  finally show ?thesis by (simp add: num_requests_def)
qed

lemma num_requests_le: "num_requests n \<le> 10"
  by (simp add: num_requests_def)


lemma num_requests_nonpos: "n \<le> 0 \<Longrightarrow> num_requests n \<le> 0"
  by (simp add: num_requests_def)

lemma search_pdfs_issued:
  assumes "search_pdfs self net query n st = (r, st')"
  shows "\<exists>k. k \<le> nat (num_requests n) \<and> (strip query \<noteq> [] \<and> 0 < n \<longrightarrow> 1 \<le> k) \<and>
           issued st st' = map (mk_request self (strip query)) [0..<k]"
proof (cases "query = [] \<or> strip query = []")
  case True
  with assms have "st' = st" by (simp add: search_pdfs_def)
  then have "issued st st' = map (mk_request self (strip query)) [0..<0]"
    by (simp add: issued_def)
  moreover from True have "strip query = []" by (auto simp: strip_def)
  ultimately show ?thesis by blast
next
  case False
  let ?pages = "[0..<nat (num_requests n)]"
  from False assms
  have st': "st' = snd (search_pages self net (strip query) n ?pages [] st)"
    by (simp add: search_pdfs_def)
  from search_pages_requests[of ?pages self net "strip query" n "[]" st]
  obtain k where k: "k \<le> length ?pages" "?pages \<noteq> [] \<longrightarrow> 1 \<le> k"
    "requests st' = requests st @ map (mk_request self (strip query)) (take k ?pages)"
    unfolding st' by blast
  from k(1) have "take k ?pages = [0..<k]" by (simp add: take_upt)
  with k(3) have "issued st st' = map (mk_request self (strip query)) [0..<k]"
    by (simp add: issued_def)
  moreover have "0 < n \<Longrightarrow> ?pages \<noteq> []"
    by (simp add: num_requests_def)
  ultimately show ?thesis using k(1,2) by auto
qed

lemma search_pdfs_returns:
  assumes "search_pdfs self net query n st = (Inr urls, st')"
  shows "length urls \<le> nat n \<and> (\<forall>u\<in>set urls. pdf_test u) \<and>
         saved st' = saved st @ (if urls = [] then [] else [(urls, strip query)])"
proof (cases "query = [] \<or> strip query = []")
  case True
  with assms show ?thesis by (auto simp: search_pdfs_def)
next
  case False
  with assms
  have run: "search_pages self net (strip query) n [0..<nat (num_requests n)] [] st = (Inr urls, st')"
    by (simp add: search_pdfs_def)
  show ?thesis
  proof (cases "0 < n")
    case True
    then have "int (length ([]::pystr list)) < n" by simp
    from search_pages_returns[OF this _ run] show ?thesis by auto
  next
    case False
    then have "nat (num_requests n) = 0" using num_requests_nonpos[of n] by simp
    with run have "after_pages (strip query) [] st = (Inr urls, st')" by simp
    then show ?thesis by (auto simp: after_pages_def)
  qed
qed


text \<open>
  Claim C3. The list that a search returns is never longer than the requested count (for a
  negative count it is empty). The scan of the items stops at the link with which the
  accumulated list reaches the count: the items after it are not looked at. The loop over
  the pages stops there too: no request is issued for the pages after it, and the list
  returned is the slice of the accumulated list up to the count.
\<close>

theorem search_result_bounded:
  "(search_pdfs self net query n st = (Inr urls, st') \<longrightarrow>
      length urls \<le> nat n \<and> (0 \<le> n \<longrightarrow> int (length urls) \<le> n)) \<and>
   (pdf_link item = Inr (Some l) \<and> n \<le> int (length acc) + 1 \<longrightarrow>
      scan_items n (item # rest) acc = Reached (acc @ [l])) \<and>
   (net (mk_request self qy i) = HttpResponse 200 (Json j) \<and> scan_page n j acc = Reached xs \<longrightarrow>
      search_pages self net qy n (i # later) acc st0 =
        (Inr (py_slice_to xs n),
         save_links_to_file xs qy (st0\<lparr>requests := requests st0 @ [mk_request self qy i]\<rparr>)))"
proof (intro conjI impI)
  assume "search_pdfs self net query n st = (Inr urls, st')"
  from search_pdfs_returns[OF this] show "length urls \<le> nat n" by simp
  then show "int (length urls) \<le> n" if "0 \<le> n" using that by linarith
next
  assume "pdf_link item = Inr (Some l) \<and> n \<le> int (length acc) + 1"
  then show "scan_items n (item # rest) acc = Reached (acc @ [l])" by simp
next
  assume "net (mk_request self qy i) = HttpResponse 200 (Json j) \<and> scan_page n j acc = Reached xs"
  then show "search_pages self net qy n (i # later) acc st0 =
        (Inr (py_slice_to xs n),
         save_links_to_file xs qy (st0\<lparr>requests := requests st0 @ [mk_request self qy i]\<rparr>))"
    by (simp add: search_pages_Cons)
qed

theorem search_result_bounded_witness:
  "search_pdfs ex_self ex_net (py '' cats '') 1 idle =
     (Inr [py ''http://a.org/x.PDF''],
      \<lparr>requests = [mk_request ex_self (py ''cats'') 0],
       saved = [([py ''http://a.org/x.PDF''], py ''cats'')], sleeps = 0\<rparr>) \<and>
   length [py ''http://a.org/x.PDF''] \<le> nat 1 \<and>
   pdf_link (JObj [(py ''link'', JStr (py ''http://a.org/x.PDF''))]) = Inr (Some (py ''http://a.org/x.PDF'')) \<and>
   scan_items 1 [JObj [(py ''link'', JStr (py ''http://a.org/x.PDF''))], JNum 7] [] =
     Reached [py ''http://a.org/x.PDF''] \<and>
   ex_net (mk_request ex_self (py ''cats'') 0) =
     ex_page [py ''http://a.org/x.PDF'', py ''http://a.org/y.html''] \<and>
   search_pages ex_self ex_net (py ''cats'') 1 [0, 1] [] idle =
     (Inr [py ''http://a.org/x.PDF''],
      \<lparr>requests = [mk_request ex_self (py ''cats'') 0],
       saved = [([py ''http://a.org/x.PDF''], py ''cats'')], sleeps = 0\<rparr>)"
proof -
  let ?x = "py ''http://a.org/x.PDF''"
  let ?item = "JObj [(py ''link'', JStr ?x)]"
  let ?j = "JObj [(py ''items'', JArr (map (\<lambda>u. JObj [(py ''link'', JStr u)])
              [py ''http://a.org/x.PDF'', py ''http://a.org/y.html'']))]"
  let ?st = "\<lparr>requests = [mk_request ex_self (py ''cats'') 0],
       saved = [([?x], py ''cats'')], sleeps = 0\<rparr>"
  have run: "search_pdfs ex_self ex_net (py '' cats '') 1 idle = (Inr [?x], ?st)"
    by code_simp
  have link: "pdf_link ?item = Inr (Some ?x)" by code_simp
  have net: "ex_net (mk_request ex_self (py ''cats'') 0) = HttpResponse 200 (Json ?j)"
    by (simp add: ex_net_def mk_request_def ex_page_def)
  have scan: "scan_page 1 ?j [] = Reached [?x]" by code_simp
  have st: "save_links_to_file [?x] (py ''cats'')
      (idle\<lparr>requests := requests idle @ [mk_request ex_self (py ''cats'') 0]\<rparr>) = ?st"
    by (simp add: save_links_to_file_def idle_def)
  have sl: "py_slice_to [?x] 1 = [?x]" by (simp add: py_slice_to_def)
  from search_result_bounded[of ex_self ex_net "py '' cats ''" 1 idle "[?x]" ?st
      ?item ?x "[]" "[JNum 7]" "py ''cats''" 0 ?j "[?x]" "[1]" idle]
    run link net scan
  have "length [?x] \<le> nat 1 \<and>
    scan_items 1 (?item # [JNum 7]) [] = Reached ([] @ [?x]) \<and>
    search_pages ex_self ex_net (py ''cats'') 1 (0 # [1]) [] idle =
     (Inr (py_slice_to [?x] 1), save_links_to_file [?x] (py ''cats'')
      (idle\<lparr>requests := requests idle @ [mk_request ex_self (py ''cats'') 0]\<rparr>))"
    by simp
  with run link net st sl show ?thesis
    by (simp add: ex_page_def)
qed

text \<open>
  Claim C4. A search issues at most \<open>min(10, ceil(count / 10))\<close> page requests (none
  when this number is not positive), hence never more than 10, and the request for page
  \<open>i\<close>, counted from 0, has start offset \<open>i * 10 + 1\<close>. For a count of 15 and a
  query that is not blank the start offsets are 1, or 1 and 11; they are 1 and 11 whenever
  the first page is scanned to its end without the count being reached.
\<close>

theorem page_requests_bounded:
  assumes "search_pdfs self net query n st = (r, st')"
  shows "length (issued st st') \<le> nat (min 10 \<lceil>real_of_int n / 10\<rceil>) \<and>
         length (issued st st') \<le> 10 \<and>
         (\<forall>i<length (issued st st'). start (issued st st' ! i) = int i * 10 + 1) \<and>
         (n = 15 \<and> strip query \<noteq> [] \<longrightarrow>
            map start (issued st st') = [1] \<or> map start (issued st st') = [1, 11]) \<and>
         (n = 15 \<and> strip query \<noteq> [] \<and>
          net (mk_request self (strip query) 0) = HttpResponse 200 (Json j) \<and>
          scan_page 15 j [] = Exhausted xs \<longrightarrow>
            map start (issued st st') = [1, 11])"
proof -
  from search_pdfs_issued[OF assms]
  obtain k where k: "k \<le> nat (num_requests n)" "strip query \<noteq> [] \<and> 0 < n \<longrightarrow> 1 \<le> k"
    and iss: "issued st st' = map (mk_request self (strip query)) [0..<k]"
    by blast
  have len: "length (issued st st') = k" by (simp add: iss)
  have c1: "length (issued st st') \<le> nat (min 10 \<lceil>real_of_int n / 10\<rceil>)"
    using k(1) len by (simp only: num_requests_ceiling[symmetric])
  have c2: "length (issued st st') \<le> 10"
    using k(1) len num_requests_le[of n] by linarith
  have c3: "\<forall>i<length (issued st st'). start (issued st st' ! i) = int i * 10 + 1"
    by (simp add: iss mk_request_def)
  have c4: "map start (issued st st') = [1] \<or> map start (issued st st') = [1, 11]"
    if "n = 15 \<and> strip query \<noteq> []"
  proof -
    from that k have "k = 1 \<or> k = 2" by (auto simp: num_requests_def)
    then show ?thesis
    proof
      assume "k = 1"
      then show ?thesis by (simp add: iss mk_request_def)
    next
      assume "k = 2"
      then have "[0..<k] = [0, 1]" by (simp add: upt_rec)
      then show ?thesis by (simp add: iss mk_request_def)
    qed
  qed
  have c5: "map start (issued st st') = [1, 11]"
    if h: "n = 15 \<and> strip query \<noteq> [] \<and>
          net (mk_request self (strip query) 0) = HttpResponse 200 (Json j) \<and>
          scan_page 15 j [] = Exhausted xs"
  proof -
    let ?qy = "strip query"
    let ?st1 = "st\<lparr>requests := requests st @ [mk_request self ?qy 0], sleeps := Suc (sleeps st)\<rparr>"
    from h have ne: "\<not> (query = [] \<or> strip query = [])" by (auto simp: strip_def)
    have pages: "[0..<nat (num_requests 15)] = [0, 1]" by (simp add: num_requests_def upt_rec)
    from assms h ne pages
    have "search_pages self net ?qy 15 [0, 1] [] st = (r, st')"
      by (simp add: search_pdfs_def)
    with h have run: "search_pages self net ?qy 15 [1] xs ?st1 = (r, st')"
      by (simp add: search_pages_Cons)
    from search_pages_requests[of "[1]" self net ?qy 15 xs ?st1]
    obtain m where m: "m \<le> 1" "1 \<le> m"
      "requests (snd (search_pages self net ?qy 15 [1] xs ?st1)) =
         requests ?st1 @ map (mk_request self ?qy) (take m [1])"
      by auto
    then have "m = 1" by simp
    with m(3) run have "requests st' = requests st @ [mk_request self ?qy 0, mk_request self ?qy 1]"
      by simp
    then show ?thesis by (simp add: issued_def mk_request_def)
  qed
  from c1 c2 c3 c4 c5 show ?thesis by blast
qed

theorem page_requests_bounded_witness:
  "search_pdfs ex_self ex_net (py '' cats '') 15 idle =
     (Inr [py ''http://a.org/x.PDF'', py ''http://b.org/z.pdf''],
      \<lparr>requests = [mk_request ex_self (py ''cats'') 0, mk_request ex_self (py ''cats'') 1],
       saved = [([py ''http://a.org/x.PDF'', py ''http://b.org/z.pdf''], py ''cats'')],
       sleeps = 2\<rparr>) \<and>
   strip (py '' cats '') \<noteq> [] \<and>
   ex_net (mk_request ex_self (strip (py '' cats '')) 0) =
     ex_page [py ''http://a.org/x.PDF'', py ''http://a.org/y.html''] \<and>
   map start (issued idle
     \<lparr>requests = [mk_request ex_self (py ''cats'') 0, mk_request ex_self (py ''cats'') 1],
      saved = [([py ''http://a.org/x.PDF'', py ''http://b.org/z.pdf''], py ''cats'')],
      sleeps = 2\<rparr>) = [1, 11] \<and>
   length (issued idle
     \<lparr>requests = [mk_request ex_self (py ''cats'') 0, mk_request ex_self (py ''cats'') 1],
      saved = [([py ''http://a.org/x.PDF'', py ''http://b.org/z.pdf''], py ''cats'')],
      sleeps = 2\<rparr>) \<le> nat (min 10 \<lceil>real_of_int 15 / 10\<rceil>)"
proof -
  let ?x = "py ''http://a.org/x.PDF''"
  let ?z = "py ''http://b.org/z.pdf''"
  let ?j = "JObj [(py ''items'', JArr (map (\<lambda>u. JObj [(py ''link'', JStr u)])
              [py ''http://a.org/x.PDF'', py ''http://a.org/y.html'']))]"
  let ?st = "\<lparr>requests = [mk_request ex_self (py ''cats'') 0, mk_request ex_self (py ''cats'') 1],
       saved = [([?x, ?z], py ''cats'')], sleeps = 2\<rparr>"
  have run: "search_pdfs ex_self ex_net (py '' cats '') 15 idle = (Inr [?x, ?z], ?st)"
    by code_simp
  have q: "strip (py '' cats '') = py ''cats''" by code_simp
  then have ne: "strip (py '' cats '') \<noteq> []" by simp
  have net: "ex_net (mk_request ex_self (strip (py '' cats '')) 0) = HttpResponse 200 (Json ?j)"
    unfolding q by (simp add: ex_net_def mk_request_def ex_page_def)
  have scan: "scan_page 15 ?j [] = Exhausted [?x]" by code_simp
  from page_requests_bounded[OF run, where j="?j" and xs="[?x]"] ne net scan
  have "map start (issued idle ?st) = [1, 11] \<and>
        length (issued idle ?st) \<le> nat (min 10 \<lceil>real_of_int 15 / 10\<rceil>)"
    by blast
  with run ne net show ?thesis by (simp only: ex_page_def) simp
qed

text \<open>
  Claim C5. For every count, a query that is empty or consists of whitespace only makes the
  search return the empty list at once: no page request, no save, no sleep, no exception.
\<close>

theorem blank_query_returns_nothing:
  assumes "query = [] \<or> (\<forall>c\<in>set query. is_space c)"
  shows "search_pdfs self net query n st = (Inr [], st)"
  using assms by (auto simp: search_pdfs_def strip_blank)

theorem blank_query_returns_nothing_witness:
  "list_all is_space (py ''   '') \<and>
   search_pdfs ex_self ex_net (py ''   '') 10 idle = (Inr [], idle)"
proof -
  have h: "\<forall>c\<in>set (py ''   ''). is_space c" by (simp add: is_space_def)
  then have "py ''   '' = [] \<or> (\<forall>c\<in>set (py ''   ''). is_space c)" ..
  from blank_query_returns_nothing[OF this] h show ?thesis
    by (simp only: list_all_iff)
qed

text \<open>
  Claim C6. Every URL in the list a search returns ends in \<open>.pdf\<close> when letter case is
  ignored. The only links the scan appends are such links, and an item whose link does not
  end in \<open>.pdf\<close>, case ignored, is passed over with the accumulated list unchanged.
\<close>

theorem results_end_in_pdf:
  "(search_pdfs self net query n st = (Inr urls, st') \<longrightarrow>
      (\<forall>u\<in>set urls. ends_with_ci u (py ''.pdf''))) \<and>
   (pdf_link item = Inr (Some l) \<longrightarrow> ends_with_ci l (py ''.pdf'')) \<and>
   (py_getitem item (py ''link'') = Inr (JStr s) \<and> \<not> ends_with_ci s (py ''.pdf'') \<longrightarrow>
      scan_items n (item # rest) acc = scan_items n rest acc)"
proof (intro conjI impI)
  assume "search_pdfs self net query n st = (Inr urls, st')"
  from search_pdfs_returns[OF this] show "\<forall>u\<in>set urls. ends_with_ci u (py ''.pdf'')"
    using pdf_test_iff by blast
next
  assume "pdf_link item = Inr (Some l)"
  then show "ends_with_ci l (py ''.pdf'')" using pdf_link_Some pdf_test_iff by blast
next
  assume h: "py_getitem item (py ''link'') = Inr (JStr s) \<and> \<not> ends_with_ci s (py ''.pdf'')"
  then obtain kvs where item: "item = JObj kvs"
    by (cases item) simp_all
  from h item have look: "map_of (rev kvs) (py ''link'') = Some (JStr s)"
    by (simp split: option.splits)
  then have "py ''link'' \<in> fst ` set (rev kvs)"
    by (auto dest!: map_of_SomeD intro: rev_image_eqI)
  then have "py_contains (py ''link'') item = Inr True"
    using item by simp
  moreover from h have "\<not> pdf_test s" by (simp only: pdf_test_iff) simp
  ultimately have "pdf_link item = Inr None"
    using h by (simp add: pdf_link_def pdf_test_def)
  then show "scan_items n (item # rest) acc = scan_items n rest acc" by simp
qed

theorem results_end_in_pdf_witness:
  "search_pdfs ex_self ex_net (py '' cats '') 15 idle =
     (Inr [py ''http://a.org/x.PDF'', py ''http://b.org/z.pdf''],
      \<lparr>requests = [mk_request ex_self (py ''cats'') 0, mk_request ex_self (py ''cats'') 1],
       saved = [([py ''http://a.org/x.PDF'', py ''http://b.org/z.pdf''], py ''cats'')],
       sleeps = 2\<rparr>) \<and>
   ends_with_ci (py ''http://a.org/x.PDF'') (py ''.pdf'') \<and>
   ends_with_ci (py ''http://b.org/z.pdf'') (py ''.pdf'') \<and>
   pdf_link (JObj [(py ''link'', JStr (py ''http://a.org/x.PDF''))]) =
     Inr (Some (py ''http://a.org/x.PDF'')) \<and>
   py_getitem (JObj [(py ''link'', JStr (py ''http://a.org/y.html''))]) (py ''link'') =
     Inr (JStr (py ''http://a.org/y.html'')) \<and>
   \<not> ends_with_ci (py ''http://a.org/y.html'') (py ''.pdf'') \<and>
   scan_items 15 [JObj [(py ''link'', JStr (py ''http://a.org/y.html''))]] [py ''http://a.org/x.PDF''] =
     Exhausted [py ''http://a.org/x.PDF'']"
proof -
  let ?x = "py ''http://a.org/x.PDF''"
  let ?y = "py ''http://a.org/y.html''"
  let ?z = "py ''http://b.org/z.pdf''"
  let ?st = "\<lparr>requests = [mk_request ex_self (py ''cats'') 0, mk_request ex_self (py ''cats'') 1],
       saved = [([?x, ?z], py ''cats'')], sleeps = 2\<rparr>"
  have run: "search_pdfs ex_self ex_net (py '' cats '') 15 idle = (Inr [?x, ?z], ?st)"
    by code_simp
  have link: "pdf_link (JObj [(py ''link'', JStr ?x)]) = Inr (Some ?x)" by code_simp
  have get: "py_getitem (JObj [(py ''link'', JStr ?y)]) (py ''link'') = Inr (JStr ?y)"
    by code_simp
  have no: "\<not> ends_with_ci ?y (py ''.pdf'')" by code_simp
  from results_end_in_pdf[of ex_self ex_net "py '' cats ''" 15 idle "[?x, ?z]" ?st
      "JObj [(py ''link'', JStr ?x)]" ?x]
    run link
  have "\<forall>u\<in>set [?x, ?z]. ends_with_ci u (py ''.pdf'')" by blast
  then have c1: "ends_with_ci ?x (py ''.pdf'') \<and> ends_with_ci ?z (py ''.pdf'')"
    by (simp only: list.set ball_simps)
  from results_end_in_pdf[where item="JObj [(py ''link'', JStr ?y)]" and s="?y" and n=15
      and rest="[]" and acc="[?x]"] get no
  have "scan_items 15 (JObj [(py ''link'', JStr ?y)] # []) [?x] = scan_items 15 [] [?x]"
    by blast
  then have c2: "scan_items 15 [JObj [(py ''link'', JStr ?y)]] [?x] = Exhausted [?x]"
    by (simp only: scan_items.simps)
  from run c1 link get no c2 show ?thesis by blast
qed



text \<open>
  Claim C8. A search that returns at least one URL has called \<open>save_links_to_file\<close>
  exactly once, on the list it returns and the stripped query; a search that returns the
  empty list has not called it.
\<close>

theorem save_once_when_nonempty:
  assumes "search_pdfs self net query n st = (Inr urls, st')"
  shows "saved st' = saved st @ (if urls = [] then [] else [(urls, strip query)])"
  using search_pdfs_returns[OF assms] by simp

theorem save_once_when_nonempty_witness:
  "search_pdfs ex_self ex_net (py '' cats '') 15 idle =
     (Inr [py ''http://a.org/x.PDF'', py ''http://b.org/z.pdf''],
      \<lparr>requests = [mk_request ex_self (py ''cats'') 0, mk_request ex_self (py ''cats'') 1],
       saved = [([py ''http://a.org/x.PDF'', py ''http://b.org/z.pdf''], py ''cats'')],
       sleeps = 2\<rparr>) \<and>
   search_pdfs ex_self ex_refusing (py '' cats '') 15 idle =
     (Inr [], \<lparr>requests = [mk_request ex_self (py ''cats'') 0], saved = [], sleeps = 0\<rparr>) \<and>
   saved \<lparr>requests = [mk_request ex_self (py ''cats'') 0, mk_request ex_self (py ''cats'') 1],
       saved = [([py ''http://a.org/x.PDF'', py ''http://b.org/z.pdf''], py ''cats'')],
       sleeps = 2\<rparr> =
     saved idle @ [([py ''http://a.org/x.PDF'', py ''http://b.org/z.pdf''], strip (py '' cats ''))] \<and>
   saved \<lparr>requests = [mk_request ex_self (py ''cats'') 0], saved = [], sleeps = 0\<rparr> = saved idle"
proof -
  let ?x = "py ''http://a.org/x.PDF''"
  let ?z = "py ''http://b.org/z.pdf''"
  let ?st = "\<lparr>requests = [mk_request ex_self (py ''cats'') 0, mk_request ex_self (py ''cats'') 1],
       saved = [([?x, ?z], py ''cats'')], sleeps = 2\<rparr>"
  let ?quiet = "\<lparr>requests = [mk_request ex_self (py ''cats'') 0], saved = [], sleeps = 0\<rparr>"
  have run: "search_pdfs ex_self ex_net (py '' cats '') 15 idle = (Inr [?x, ?z], ?st)"
    by code_simp
  have run0: "search_pdfs ex_self ex_refusing (py '' cats '') 15 idle = (Inr [], ?quiet)"
    by code_simp
  from save_once_when_nonempty[OF run]
  have c1: "saved ?st = saved idle @ [([?x, ?z], strip (py '' cats ''))]"
    by (simp only: list.simps if_False)
  from save_once_when_nonempty[OF run0]
  have c2: "saved ?quiet = saved idle"
    by (simp only: if_True refl append_Nil2)
  from run run0 c1 c2 show ?thesis by blast
qed

text \<open>
  Claim C10. For every query and every requested count that is zero or negative, the number
  of page requests computed, \<open>min(10, (count + 9) div 10)\<close>, is not positive, and the
  search returns the empty list without a page request and without a save.
\<close>

theorem nonpositive_count_no_requests:
  assumes "n \<le> 0"
  shows "num_requests n \<le> 0 \<and> search_pdfs self net query n st = (Inr [], st)"
proof -
  from assms have z: "nat (num_requests n) = 0" using num_requests_nonpos[of n] by simp
  show ?thesis
    using num_requests_nonpos[OF assms] by (simp add: search_pdfs_def z after_pages_def)
qed

theorem nonpositive_count_no_requests_witness:
  "(-10::int) \<le> 0 \<and> num_requests (-10) \<le> 0 \<and>
   search_pdfs ex_self ex_net (py ''cats'') (-10) idle = (Inr [], idle)"
proof -
  have "(-10::int) \<le> 0" by simp
  from nonpositive_count_no_requests[OF this, of ex_self ex_net "py ''cats''" idle] this
  show ?thesis by blast
qed

section \<open>Properties of the download\<close>


lemma map_filter_append: "List.map_filter f (xs @ ys) = List.map_filter f xs @ List.map_filter f ys"
  by (simp add: List.map_filter_def)

lemma outcomes_upd [simp]:
  "outcomes (st\<lparr>files := f\<rparr>) = outcomes st" "outcomes (st\<lparr>pauses := n\<rparr>) = outcomes st"
  "outcomes (st\<lparr>download_log := download_log st @ ls\<rparr>) = outcomes st @ List.map_filter outcome_of ls"
  by (simp_all add: outcomes_def map_filter_append)

lemma attempts_upd [simp]:
  "attempts (st\<lparr>files := f\<rparr>) = attempts st" "attempts (st\<lparr>pauses := n\<rparr>) = attempts st"
  "attempts (st\<lparr>download_log := download_log st @ ls\<rparr>) = attempts st @ List.map_filter attempt_of ls"
  by (simp_all add: attempts_def map_filter_append)

lemma handler_lines [simp]:
  "attempt_of (handler url e) = None"
  "outcome_of (handler url e) =
     Some (Failed (case e of Timeout \<Rightarrow> TimeoutFailure | ConnectionError \<Rightarrow> ConnectionFailure
                   | _ \<Rightarrow> OtherFailure e))"
  by (cases e; simp add: handler_def)+






















text \<open>
  A connection lost while the body is streamed leaves what was written so far at the path,
  with an outcome that is not Success; the amended claim says nothing about this case.
\<close>

lemma interrupted_download_leaves_file:
  "files (download_pdfs ex_int ex_cut [py ''http://a.org/1.pdf''] ex_dir Map.empty)
     (filename ex_dir 1) = Some ''%PDF'' \<and>
   outcomes (download_pdfs ex_int ex_cut [py ''http://a.org/1.pdf''] ex_dir Map.empty) =
     [Failed ConnectionFailure]"
  by code_simp

section \<open>Properties of the count\<close>

text \<open>
  Claim C9, as amended. The count that \<open>main\<close> hands to the search is at most 100 and
  has no lower bound: an integer \<open>n\<close> typed in gives \<open>min(n, 100)\<close>, so that zero and
  negative numbers pass unchanged, and text that is no integer gives the default 10.
\<close>

theorem count_capped_at_100:
  "main_num_results typed \<le> 100 \<and>
   main_num_results (Some n) = min n 100 \<and>
   main_num_results None = 10"
  by (simp add: main_num_results_def split: option.splits)

theorem count_capped_at_100_witness:
  "main_num_results (Some 250) = 100 \<and> main_num_results (Some (- 3)) = - 3 \<and>
   main_num_results None = 10"
  using count_capped_at_100 [of "Some 250" 250] count_capped_at_100 [of None "- 3"]
  by simp

text \<open>The claim as first stated, with the lower bound 1, fails for the input 0.\<close>

theorem count_below_one:
  "\<not> (1 \<le> main_num_results (Some 0) \<and> main_num_results (Some 0) \<le> 100)"
  by (simp add: main_num_results_def)

end
